theory Spec2Isabelle
  imports Main "HOL-Library.Word"
begin

section \<open>Strings\<close>

text \<open>
  A JavaScript string is a sequence of 16-bit code units; \<open>length\<close>, \<open>slice\<close> and
  \<open>split\<close> count and cut code units. \<open>js\<close> embeds an ASCII literal.
\<close>

type_synonym code_unit = "16 word"
type_synonym jsstring = "code_unit list"

definition js :: "string \<Rightarrow> jsstring" where
  "js s = map (\<lambda>c. of_nat (of_char c)) s"

definition SPACE :: code_unit where
  "SPACE = 32"

text \<open>
  \<open>String.prototype.split\<close> with a separator of one code unit: the pieces between
  the occurrences of the separator, empty pieces included; the empty string gives one
  empty piece.
\<close>

fun split :: "code_unit \<Rightarrow> jsstring \<Rightarrow> jsstring list" where
  "split sep [] = [[]]"
| "split sep (c # cs) =
     (if c = sep then [] # split sep cs
      else (case split sep cs of [] \<Rightarrow> [[c]] | t # ts \<Rightarrow> (c # t) # ts))"

text \<open>\<open>Array.prototype.join\<close> on an array of strings.\<close>

fun join :: "jsstring \<Rightarrow> jsstring list \<Rightarrow> jsstring" where
  "join sep [] = []"
| "join sep [t] = t"
| "join sep (t # u # ts) = t @ sep @ join sep (u # ts)"

text \<open>\<open>String.prototype.slice\<close> with non-negative bounds.\<close>

definition slice :: "nat \<Rightarrow> nat \<Rightarrow> jsstring \<Rightarrow> jsstring" where
  "slice b e s = take (e - b) (drop b s)"

section \<open>The sanitizer\<close>

text \<open>
  \<^verbatim>\<open>
  sanitize: function (taskInfo) {
      var taskInfoArray = taskInfo.split(" ");
      var newTaskInfo = [];
      taskInfoArray.forEach(function (element,index,array){
          if (element != "") {
              if (element.length > 30) {
                  element = element.slice(0, 30);
              }
              newTaskInfo.push(element);
          }
      });
      return newTaskInfo.join(" ");
  }
  \<close>
  The \<open>forEach\<close> loop is a left fold whose accumulator is the array \<open>newTaskInfo\<close>.
\<close>

definition sanitize_push :: "jsstring list \<Rightarrow> jsstring \<Rightarrow> jsstring list" where
  "sanitize_push newTaskInfo element =
     (if element \<noteq> [] then
        newTaskInfo @ [if length element > 30 then slice 0 30 element else element]
      else newTaskInfo)"

definition sanitize :: "jsstring \<Rightarrow> jsstring" where
  "sanitize taskInfo =
     (let taskInfoArray = split SPACE taskInfo;
          newTaskInfo = foldl sanitize_push [] taskInfoArray
      in join [SPACE] newTaskInfo)"

text \<open>
  The sanitizer as the specification words it: split on single spaces, drop the empty
  tokens, cut every token longer than 30 to its first 30, rejoin with single spaces.
\<close>

definition truncate30 :: "jsstring \<Rightarrow> jsstring" where
  "truncate30 t = (if length t > 30 then take 30 t else t)"

definition sanitize_spec :: "jsstring \<Rightarrow> jsstring" where
  "sanitize_spec x =
     join [SPACE] (map truncate30 (filter (\<lambda>t. t \<noteq> []) (split SPACE x)))"

section \<open>Numbers\<close>

text \<open>
  A JavaScript number is an IEEE 754 double. The numbers of this program are integers,
  so a number is modelled by the integer it holds, and the sum of two numbers is the
  exact sum rounded to the nearest double, ties to the even significand. A double has
  53 significant bits: an integer of magnitude below \<open>2 ^ 53\<close> is a double, and above,
  the doubles are the multiples of \<open>2 ^ e\<close> where \<open>e\<close> is the number of bits beyond 53.
  (The integers that are doubles stay below \<open>2 ^ 1024\<close>; adding 1 to one of them never
  overflows.)
\<close>

function ulp_exponent :: "nat \<Rightarrow> nat" where
  "ulp_exponent a = (if a < 2 ^ 53 then 0 else Suc (ulp_exponent (a div 2)))"
  by pat_completeness auto
termination
  by (relation "measure id") auto

declare ulp_exponent.simps [simp del]

definition round_double :: "int \<Rightarrow> int" where
  "round_double x =
     (let a = nat \<bar>x\<bar>; e = ulp_exponent a; q = a div 2 ^ e; r = a mod 2 ^ e
      in if e = 0 then x
         else if 2 ^ (e - 1) < r \<or> (r = 2 ^ (e - 1) \<and> odd q)
              then sgn x * int ((q + 1) * 2 ^ e)
              else sgn x * int (q * 2 ^ e))"

text \<open>
  The operator \<open>+\<close> on two numbers whose sum does not overflow; the one sum this
  program takes is an order plus 1.
\<close>

definition plus_double :: "int \<Rightarrow> int \<Rightarrow> int" where
  "plus_double a b = round_double (a + b)"

section \<open>The Todo model\<close>

text \<open>
  The attributes of a todo item, as \<open>defaults\<close> lists them. \<open>order\<close> is a number
  holding an integer; \<open>createdAt\<close> and \<open>modifiedAt\<close> are \<open>null\<close> or the UTC string of
  a date.
  A model object is its attributes together with the client id \<open>cid\<close> that the
  framework gives every model when it is constructed, and by which a collection finds
  the model again.
\<close>

record attributes =
  title :: jsstring
  order :: int
  "done" :: bool
  createdAt :: "jsstring option"
  modifiedAt :: "jsstring option"
  taskInfo :: jsstring

record todo = attributes +
  cid :: nat

text \<open>An attribute hash, as passed to \<open>save\<close> and \<open>create\<close>: a list of key/value pairs.\<close>

datatype attr =
    Title jsstring
  | Order int
  | Done bool
  | CreatedAt jsstring
  | ModifiedAt jsstring
  | TaskInfo jsstring

fun set_attr :: "attr \<Rightarrow> 'a attributes_scheme \<Rightarrow> 'a attributes_scheme" where
  "set_attr (Title v) m = m\<lparr>title := v\<rparr>"
| "set_attr (Order v) m = m\<lparr>order := v\<rparr>"
| "set_attr (Done v) m = m\<lparr>done := v\<rparr>"
| "set_attr (CreatedAt v) m = m\<lparr>createdAt := Some v\<rparr>"
| "set_attr (ModifiedAt v) m = m\<lparr>modifiedAt := Some v\<rparr>"
| "set_attr (TaskInfo v) m = m\<lparr>taskInfo := v\<rparr>"

text \<open>
  \<open>model.save(attrs)\<close> sets the given attributes on the model and hands the model to
  the storage adapter, which is outside this development.
\<close>

definition save :: "attr list \<Rightarrow> 'a attributes_scheme \<Rightarrow> 'a attributes_scheme" where
  "save attrs m = fold set_attr attrs m"

text \<open>
  \<^verbatim>\<open>
  toggle: function () {
      this.save({done: !this.get("done")});
  }
  \<close>
\<close>

definition toggle :: "todo \<Rightarrow> todo" where
  "toggle this = save [Done (\<not> done this)] this"

section \<open>The collection\<close>

text \<open>
  A collection holds its models in a list, which the comparator \<open>'order'\<close> keeps
  sorted. \<open>this.where({done: v})\<close> selects the models whose attribute is \<open>v\<close>, in
  collection order.
\<close>

definition where_done :: "bool \<Rightarrow> todo list \<Rightarrow> todo list" where
  "where_done v this = filter (\<lambda>m. done m = v) this"

definition done_items :: "todo list \<Rightarrow> todo list" where
  "done_items this = where_done True this"

definition remaining :: "todo list \<Rightarrow> todo list" where
  "remaining this = where_done False this"

text \<open>
  \<^verbatim>\<open>
  nextOrder: function () {
      if (!this.length) return 1;
      return this.last().get('order') + 1;
  }
  \<close>
\<close>

definition nextOrder :: "todo list \<Rightarrow> int" where
  "nextOrder this = (if length this = 0 then 1 else plus_double (order (last this)) 1)"

text \<open>
  \<open>defaults\<close> reads the global collection \<open>Todos\<close> through \<open>nextOrder\<close>, so the
  collection is its argument.
\<close>

definition defaults :: "todo list \<Rightarrow> attributes" where
  "defaults Todos_now =
     \<lparr>title = js ''empty todo...'',
      order = nextOrder Todos_now,
      done = False,
      createdAt = None,
      modifiedAt = None,
      taskInfo = []\<rparr>"

section \<open>The application state\<close>

text \<open>
  The state is the global collection \<open>Todos\<close> and the counter from which client ids
  are drawn. What the storage adapter holds and what the page shows are not part of it.
\<close>

record app =
  Todos :: "todo list"
  idCounter :: nat

definition initial :: app where
  "initial = \<lparr>Todos = [], idCounter = 0\<rparr>"

text \<open>
  \<open>new Todo(attrs)\<close>: a fresh client id, and the given attributes laid over the
  defaults.
\<close>

definition new_Todo :: "attr list \<Rightarrow> app \<Rightarrow> todo" where
  "new_Todo attrs s =
     (let a = fold set_attr attrs (defaults (Todos s))
      in \<lparr>title = title a, order = order a, done = done a, createdAt = createdAt a,
          modifiedAt = modifiedAt a, taskInfo = taskInfo a, cid = idCounter s\<rparr>)"

text \<open>
  \<open>Todos.create(attrs)\<close> constructs the model, adds it to the collection, which
  sorts itself again by the comparator (a stable sort), and saves it.
\<close>

definition create :: "attr list \<Rightarrow> app \<Rightarrow> app" where
  "create attrs s =
     s\<lparr>Todos := sort_key order (Todos s @ [new_Todo attrs s]),
       idCounter := Suc (idCounter s)\<rparr>"

text \<open>
  \<open>Todos.fetch()\<close>, which the application calls once when it starts: the records
  that the storage adapter holds become the models of the collection, each with a fresh
  client id, and the collection sorts them by the comparator.
\<close>

definition fetch :: "attributes list \<Rightarrow> app" where
  "fetch stored =
     \<lparr>Todos = sort_key order
        (map (\<lambda>(k, a). \<lparr>title = title a, order = order a, done = done a,
                         createdAt = createdAt a, modifiedAt = modifiedAt a,
                         taskInfo = taskInfo a, cid = k\<rparr>)
             (enumerate 0 stored)),
      idCounter = length stored\<rparr>"

text \<open>\<open>model.destroy()\<close> takes the model with that client id out of its collection.\<close>

definition destroy :: "nat \<Rightarrow> app \<Rightarrow> app" where
  "destroy k s = s\<lparr>Todos := filter (\<lambda>m. cid m \<noteq> k) (Todos s)\<rparr>"

text \<open>
  A method that changes a model object in place changes it where the collection
  holds it.
\<close>

definition on_model :: "nat \<Rightarrow> (todo \<Rightarrow> todo) \<Rightarrow> app \<Rightarrow> app" where
  "on_model k f s = s\<lparr>Todos := map (\<lambda>m. if cid m = k then f m else m) (Todos s)\<rparr>"

section \<open>The item view\<close>

text \<open>
  A view holds a reference to its model; the functions below take the model's client
  id \<open>k\<close>. What a handler reads from the page (the value of the input field, the text
  area, the current date as a UTC string) is an argument.
\<close>

definition toggleDone :: "nat \<Rightarrow> app \<Rightarrow> app" where
  "toggleDone k s = on_model k toggle s"

definition clear :: "nat \<Rightarrow> app \<Rightarrow> app" where
  "clear k s = destroy k s"

text \<open>
  \<^verbatim>\<open>
  close: function () {
      var value = this.input.val();
      var taskInfo = this.textarea.val();
      var modifiedDate = new Date();
      if (!value) {
          this.clear();
      } else {
          this.model.save({
              title: value,
              modifiedAt: modifiedDate.toUTCString(),
              taskInfo: this.sanitize(taskInfo)
          });
          ...
      }
  }
  \<close>
\<close>

definition close :: "nat \<Rightarrow> jsstring \<Rightarrow> jsstring \<Rightarrow> jsstring \<Rightarrow> app \<Rightarrow> app" where
  "close k val taskInfo_val modifiedDate s =
     (if val = [] then clear k s
      else on_model k
             (save [Title val, ModifiedAt modifiedDate, TaskInfo (sanitize taskInfo_val)]) s)"

text \<open>
  \<^verbatim>\<open>
  updateOnEnter: function (e) {
      var keyCode = e.keyCode;
      if (keyCode == 13) {
          this.close();
      } else if ((keyCode > 64 && keyCode < 91) || (keyCode > 96 && keyCode < 123)
                 || (keyCode > 47 && keyCode < 58) || keyCode == 32) {
          return true;
      } else {
          return false;
      }
  }
  \<close>
  The result is the new state and the returned value, \<open>None\<close> for \<open>undefined\<close>.
\<close>

definition updateOnEnter ::
  "nat \<Rightarrow> int \<Rightarrow> jsstring \<Rightarrow> jsstring \<Rightarrow> jsstring \<Rightarrow> app \<Rightarrow> app \<times> bool option" where
  "updateOnEnter k keyCode val taskInfo_val modifiedDate s =
     (if keyCode = 13 then (close k val taskInfo_val modifiedDate s, None)
      else if (keyCode > 64 \<and> keyCode < 91) \<or> (keyCode > 96 \<and> keyCode < 123)
              \<or> (keyCode > 47 \<and> keyCode < 58) \<or> keyCode = 32
      then (s, Some True)
      else (s, Some False))"

section \<open>The application view\<close>

text \<open>
  \<^verbatim>\<open>
  createOnEnter: function (e) {
      var createdDate = new Date();
      if (e.keyCode != 13) return;
      if (!this.input.val()) return;
      Todos.create({
          title: this.input.val(),
          createdAt: createdDate.toUTCString(),
          modifiedAt: createdDate.toUTCString()
      });
      this.input.val('');
  }
  \<close>
\<close>

definition createOnEnter :: "int \<Rightarrow> jsstring \<Rightarrow> jsstring \<Rightarrow> app \<Rightarrow> app" where
  "createOnEnter keyCode input_val createdDate s =
     (if keyCode \<noteq> 13 then s
      else if input_val = [] then s
      else create [Title input_val, CreatedAt createdDate, ModifiedAt createdDate] s)"

text \<open>
  \<^verbatim>\<open>
  clearCompleted: function () {
      _.invoke(Todos.done(), 'destroy');
      return false;
  }
  \<close>
\<close>

definition clearCompleted :: "app \<Rightarrow> app" where
  "clearCompleted s = foldl (\<lambda>s' m. destroy (cid m) s') s (done_items (Todos s))"

text \<open>
  \<^verbatim>\<open>
  toggleAllComplete: function () {
      var done = this.allCheckbox.checked;
      Todos.each(function (todo) {
          todo.save({'done': done});
      });
  }
  \<close>
\<close>

definition toggleAllComplete :: "bool \<Rightarrow> app \<Rightarrow> app" where
  "toggleAllComplete checked s =
     foldl (\<lambda>s' m. on_model (cid m) (save [Done checked]) s') s (Todos s)"

section \<open>Events\<close>

text \<open>
  The events that the two views bind to handlers changing the collection, each with
  what its handler reads from the page. A run of the application handles a list of
  events, starting from the empty collection.
\<close>

datatype event =
    ToggleDone nat
  | Close nat jsstring jsstring jsstring
  | UpdateOnEnter nat int jsstring jsstring jsstring
  | Clear nat
  | CreateOnEnter int jsstring jsstring
  | ClearCompleted
  | ToggleAllComplete bool

fun handle :: "app \<Rightarrow> event \<Rightarrow> app" where
  "handle s (ToggleDone k) = toggleDone k s"
| "handle s (Close k v t d) = close k v t d s"
| "handle s (UpdateOnEnter k c v t d) = fst (updateOnEnter k c v t d s)"
| "handle s (Clear k) = clear k s"
| "handle s (CreateOnEnter c v d) = createOnEnter c v d s"
| "handle s ClearCompleted = clearCompleted s"
| "handle s (ToggleAllComplete b) = toggleAllComplete b s"

definition run :: "event list \<Rightarrow> app" where
  "run es = foldl handle initial es"

text \<open>
  A session of the application: the stored records are fetched, then the events are
  handled. A run is the session that starts from an empty storage.
\<close>

definition session :: "attributes list \<Rightarrow> event list \<Rightarrow> app" where
  "session stored es = foldl handle (fetch stored) es"

text \<open>
  The orders that \<open>nextOrder\<close> returns to a sequence of creations: each creation is
  the Enter key in the input box, with the text of the box and the current date.
\<close>

fun created_orders :: "(jsstring \<times> jsstring) list \<Rightarrow> app \<Rightarrow> int list" where
  "created_orders [] s = []"
| "created_orders ((input_val, createdDate) # rest) s =
     nextOrder (Todos s) # created_orders rest (createOnEnter 13 input_val createdDate s)"

section \<open>Invariants of the collection\<close>

text \<open>
  What holds of the collection in every state: the client ids are distinct and below
  the counter, and the collection is sorted by order.
\<close>

definition invariant :: "app \<Rightarrow> bool" where
  "invariant s \<longleftrightarrow>
     distinct (map cid (Todos s)) \<and>
     list_all (\<lambda>m. cid m < idCounter s) (Todos s) \<and>
     sorted (map order (Todos s))"

section \<open>Example states\<close>

text \<open>
  Two runs used to evaluate the operations on concrete collections: two items created,
  and three items created of which the first and the third are then toggled.
\<close>

definition two_items :: app where
  "two_items = run [CreateOnEnter 13 (js ''Buy milk'') (js ''d1''),
                    CreateOnEnter 13 (js ''Walk dog'') (js ''d2'')]"

definition three_items :: app where
  "three_items = run [CreateOnEnter 13 (js ''Buy milk'') (js ''d1''),
                      CreateOnEnter 13 (js ''Walk dog'') (js ''d2''),
                      CreateOnEnter 13 (js ''Pay rent'') (js ''d3''),
                      ToggleDone 0, ToggleDone 2]"

text \<open>A stored record whose order is \<open>2 ^ 53\<close>, the first integer whose successor is no double.\<close>

definition item_2_53 :: attributes where
  "item_2_53 =
     \<lparr>title = js ''Buy milk'', order = 2 ^ 53, done = False, createdAt = Some (js ''d0''),
      modifiedAt = Some (js ''d0''), taskInfo = []\<rparr>"

section \<open>Splitting and joining\<close>

lemma split_not_Nil: "split sep x \<noteq> []"
  by (induction x) (auto split: list.splits)

lemma split_no_sep: "t \<in> set (split sep x) \<Longrightarrow> sep \<notin> set t"
proof (induction x arbitrary: t)
  case Nil
  then show ?case by simp
next
  case (Cons c cs)
  show ?case
  proof (cases "c = sep")
    case True
    with Cons show ?thesis by auto
  next
    case False
    obtain u us where us: "split sep cs = u # us"
      using split_not_Nil [of sep cs] by (cases "split sep cs") auto
    with False Cons.prems have "t = c # u \<or> t \<in> set us"
      by auto
    then show ?thesis
    proof
      assume "t = c # u"
      moreover have "sep \<notin> set u"
        using Cons.IH [of u] us by simp
      ultimately show ?thesis using False by auto
    next
      assume "t \<in> set us"
      then show ?thesis using Cons.IH [of t] us by simp
    qed
  qed
qed

lemma join_Cons: "ts \<noteq> [] \<Longrightarrow> join sep (t # ts) = t @ sep @ join sep ts"
  by (cases ts) auto

text \<open>
  Joining the pieces of a string gives the string back, and splitting a join of
  separator-free pieces gives the pieces back: \<open>split\<close> and \<open>join\<close> are inverse to
  each other, as the two built-in functions are.
\<close>

lemma join_split: "join [sep] (split sep x) = x"
proof (induction x)
  case Nil
  then show ?case by simp
next
  case (Cons c cs)
  obtain u us where us: "split sep cs = u # us"
    using split_not_Nil [of sep cs] by (cases "split sep cs") auto
  show ?case
  proof (cases "c = sep")
    case True
    then show ?thesis
      using Cons by (simp add: join_Cons split_not_Nil)
  next
    case False
    then show ?thesis
      using Cons us by (cases us) auto
  qed
qed

lemma split_token: "sep \<notin> set t \<Longrightarrow> split sep t = [t]"
  by (induction t) auto

lemma split_append_sep:
  "sep \<notin> set t \<Longrightarrow> split sep (t @ sep # rest) = t # split sep rest"
  by (induction t) auto

lemma split_join:
  "ts \<noteq> [] \<Longrightarrow> (\<And>t. t \<in> set ts \<Longrightarrow> sep \<notin> set t) \<Longrightarrow> split sep (join [sep] ts) = ts"
proof (induction ts)
  case Nil
  then show ?case by simp
next
  case (Cons t ts)
  show ?case
  proof (cases ts)
    case Nil
    then show ?thesis using Cons.prems by (simp add: split_token)
  next
    case (Cons u us)
    then have "split sep (join [sep] ts) = ts"
      using Cons.IH Cons.prems by simp
    then show ?thesis
      using Cons Cons.prems by (simp add: split_append_sep)
  qed
qed

section \<open>The sanitizer's loop\<close>

lemma sanitize_push_truncate30:
  "sanitize_push acc e = (if e \<noteq> [] then acc @ [truncate30 e] else acc)"
  by (simp add: sanitize_push_def truncate30_def slice_def)

lemma foldl_sanitize_push:
  "foldl sanitize_push acc xs = acc @ map truncate30 (filter (\<lambda>t. t \<noteq> []) xs)"
  by (induction xs arbitrary: acc) (simp_all add: sanitize_push_truncate30)

lemma sanitize_pipeline:
  "sanitize x = join [SPACE] (map truncate30 (filter (\<lambda>t. t \<noteq> []) (split SPACE x)))"
  by (simp add: sanitize_def foldl_sanitize_push)

lemma truncate30_idem: "length t \<le> 30 \<Longrightarrow> truncate30 t = t"
  by (simp add: truncate30_def)

lemma truncate30_length: "length (truncate30 t) \<le> 30"
  by (simp add: truncate30_def)

lemma truncate30_Nil_iff: "truncate30 t = [] \<longleftrightarrow> t = []"
  by (auto simp: truncate30_def)

lemma truncate30_set: "set (truncate30 t) \<subseteq> set t"
  by (auto simp: truncate30_def dest: in_set_takeD)

lemma sanitize_Nil: "sanitize [] = []"
  by (simp add: sanitize_pipeline)

lemma sanitize_of_tokens:
  assumes "\<And>t. t \<in> set ts \<Longrightarrow> t \<noteq> [] \<and> SPACE \<notin> set t \<and> length t \<le> 30"
  shows "sanitize (join [SPACE] ts) = join [SPACE] ts"
proof (cases "ts = []")
  case True
  then show ?thesis by (simp add: sanitize_Nil)
next
  case False
  then have "split SPACE (join [SPACE] ts) = ts"
    using assms by (intro split_join) auto
  moreover have "filter (\<lambda>t. t \<noteq> []) ts = ts"
    using assms by (simp add: filter_id_conv)
  moreover have "map truncate30 ts = ts"
    using assms by (simp add: map_idI truncate30_idem)
  ultimately show ?thesis by (simp add: sanitize_pipeline)
qed

section \<open>Models changed in place\<close>

lemma save_Done: "save [Done b] m = m\<lparr>done := b\<rparr>"
  by (simp add: save_def)

lemma toggle_eq: "toggle m = m\<lparr>done := \<not> done m\<rparr>"
  by (simp add: toggle_def save_def)

lemma save_close:
  "save [Title v, ModifiedAt d, TaskInfo t] m =
     m\<lparr>title := v, modifiedAt := Some d, taskInfo := t\<rparr>"
  by (simp add: save_def)

lemma on_model_cids:
  "(\<And>m. cid (f m) = cid m) \<Longrightarrow> map cid (Todos (on_model k f s)) = map cid (Todos s)"
  by (simp add: on_model_def)

lemma on_model_orders:
  "(\<And>m. order (f m) = order m) \<Longrightarrow> map order (Todos (on_model k f s)) = map order (Todos s)"
  by (simp add: on_model_def)

lemma on_model_idCounter: "idCounter (on_model k f s) = idCounter s"
  by (simp add: on_model_def)

lemma foldl_on_model_cids:
  "(\<And>m. cid (f m) = cid m) \<Longrightarrow>
   map cid (Todos (foldl (\<lambda>s' m. on_model (cid m) f s') s ms)) = map cid (Todos s)"
  by (induction ms arbitrary: s) (simp_all add: on_model_cids)

lemma foldl_on_model_orders:
  "(\<And>m. order (f m) = order m) \<Longrightarrow>
   map order (Todos (foldl (\<lambda>s' m. on_model (cid m) f s') s ms)) = map order (Todos s)"
  by (induction ms arbitrary: s) (simp_all add: on_model_orders)

lemma foldl_on_model_idCounter:
  "idCounter (foldl (\<lambda>s' m. on_model (cid m) f s') s ms) = idCounter s"
  by (induction ms arbitrary: s) (simp_all add: on_model_idCounter)

section \<open>Double arithmetic\<close>

text \<open>
  A sum of magnitude up to \<open>2 ^ 53\<close> is exact. The two conditional equations evaluate
  \<open>ulp_exponent\<close> on a numeral.
\<close>

lemma ulp_exponent_small: "a < 2 ^ 53 \<Longrightarrow> ulp_exponent a = 0"
  by (subst ulp_exponent.simps) simp

lemma ulp_exponent_step: "\<not> a < 2 ^ 53 \<Longrightarrow> ulp_exponent a = Suc (ulp_exponent (a div 2))"
  by (subst ulp_exponent.simps) simp

lemma ulp_exponent_2_53: "ulp_exponent (2 ^ 53) = 1"
  by (simp add: ulp_exponent_step ulp_exponent_small)

lemma round_double_exact: "\<bar>x\<bar> \<le> 2 ^ 53 \<Longrightarrow> round_double x = x"
proof (cases "\<bar>x\<bar> < 2 ^ 53")
  case True
  then have "nat \<bar>x\<bar> < 2 ^ 53"
    by (simp add: nat_less_iff)
  then show ?thesis
    by (simp add: round_double_def Let_def ulp_exponent_small)
next
  case False
  assume "\<bar>x\<bar> \<le> 2 ^ 53"
  with False have a: "\<bar>x\<bar> = 2 ^ 53" by simp
  then have n: "nat \<bar>x\<bar> = 2 ^ 53" by simp
  have "sgn x * \<bar>x\<bar> = x"
    by (rule mult_sgn_abs)
  then have "sgn x * 2 ^ 53 = x"
    unfolding a .
  then show ?thesis
    unfolding round_double_def n Let_def ulp_exponent_2_53 by simp
qed

lemma plus_double_exact: "\<bar>a + b\<bar> \<le> 2 ^ 53 \<Longrightarrow> plus_double a b = a + b"
  by (simp add: plus_double_def round_double_exact)

lemmas double_eval =
  plus_double_def round_double_def Let_def ulp_exponent_step ulp_exponent_small

lemma plus_double_2_53: "plus_double (2 ^ 53) 1 = 2 ^ 53"
  by (simp add: double_eval)

section \<open>Sorted collections and creation\<close>

text \<open>
  In a list sorted by a key the last element has the greatest key. While the orders
  stay in the range where adding 1 is exact, \<open>nextOrder\<close> is above every order of the
  sorted collection.
\<close>

lemma sorted_le_last:
  fixes ys :: "'a list" and f :: "'a \<Rightarrow> int"
  assumes "sorted (map f ys)" "x \<in> set ys"
  shows "f x \<le> f (last ys)"
proof -
  from assms(2) have ne: "ys \<noteq> []" by auto
  then have ys: "ys = butlast ys @ [last ys]" by simp
  have "sorted (map f (butlast ys @ [last ys]))"
    using assms(1) ys by simp
  then have "\<forall>a\<in>set (butlast ys). f a \<le> f (last ys)"
    by (simp add: sorted_append)
  moreover have "x \<in> set (butlast ys) \<or> x = last ys"
    using assms(2) ys by (metis Un_iff insert_iff list.set(2) set_append empty_iff empty_set)
  ultimately show ?thesis by auto
qed

lemma last_sort_key_ge:
  fixes f :: "'a \<Rightarrow> int"
  assumes "x \<in> set xs"
  shows "f x \<le> f (last (sort_key f xs))"
  using sorted_le_last [of f "sort_key f xs" x] assms by simp

lemma nextOrder_exact:
  assumes "c \<noteq> []" "\<bar>order (last c)\<bar> < 2 ^ 53"
  shows "nextOrder c = order (last c) + 1"
proof -
  have "\<bar>order (last c) + 1\<bar> \<le> 2 ^ 53"
    using assms(2) by simp
  then show ?thesis
    using assms(1) by (simp add: nextOrder_def plus_double_exact)
qed

lemma Max_order_last:
  assumes "sorted (map order c)" "c \<noteq> []"
  shows "Max (order ` set c) = order (last c)"
proof (rule Max_eqI)
  show "finite (order ` set c)" by simp
  show "y \<le> order (last c)" if "y \<in> order ` set c" for y
    using that sorted_le_last [OF assms(1)] by auto
  show "order (last c) \<in> order ` set c"
    using assms(2) by simp
qed

lemma nextOrder_Max:
  assumes "sorted (map order c)" "c \<noteq> []" "list_all (\<lambda>m. \<bar>order m\<bar> < 2 ^ 53) c"
  shows "nextOrder c = Max (order ` set c) + 1"
proof -
  have "last c \<in> set c"
    using assms(2) by simp
  then have "\<bar>order (last c)\<bar> < 2 ^ 53"
    using assms(3) by (simp add: list_all_iff)
  then show ?thesis
    using assms by (simp add: nextOrder_exact Max_order_last)
qed

lemma new_Todo_createOnEnter:
  "new_Todo [Title v, CreatedAt d, ModifiedAt d] s =
     \<lparr>title = v, order = nextOrder (Todos s), done = False, createdAt = Some d,
      modifiedAt = Some d, taskInfo = [], cid = idCounter s\<rparr>"
  by (simp add: new_Todo_def defaults_def)

lemma createOnEnter_Todos:
  "v \<noteq> [] \<Longrightarrow>
   Todos (createOnEnter 13 v d s) =
     sort_key order (Todos s @ [new_Todo [Title v, CreatedAt d, ModifiedAt d] s])"
  by (simp add: createOnEnter_def create_def)

lemma create_appends:
  assumes "sorted (map order (Todos s))" "list_all (\<lambda>m. \<bar>order m\<bar> < 2 ^ 53) (Todos s)"
  shows "Todos (create [Title v, CreatedAt d, ModifiedAt d] s) =
           Todos s @ [new_Todo [Title v, CreatedAt d, ModifiedAt d] s]"
proof -
  let ?m = "new_Todo [Title v, CreatedAt d, ModifiedAt d] s"
  have "order x \<le> order ?m" if "x \<in> set (Todos s)" for x
  proof -
    from that have ne: "Todos s \<noteq> []" by auto
    then have "last (Todos s) \<in> set (Todos s)" by simp
    then have "\<bar>order (last (Todos s))\<bar> < 2 ^ 53"
      using assms(2) by (simp add: list_all_iff)
    then have "nextOrder (Todos s) = order (last (Todos s)) + 1"
      using ne by (simp add: nextOrder_exact)
    then show ?thesis
      using sorted_le_last [OF assms(1) that] by (simp add: new_Todo_createOnEnter)
  qed
  then have "sorted (map order (Todos s @ [?m]))"
    using assms(1) by (simp add: sorted_append)
  then have "sort_key order (Todos s @ [?m]) = Todos s @ [?m]"
    by (rule sort_key_id_if_sorted)
  then show ?thesis
    by (simp add: create_def)
qed

text \<open>
  A sequence of \<open>n\<close> creations stays in the exact range when \<open>n\<close> is at most \<open>2 ^ 53\<close>
  and every order of the collection, in magnitude, is at most \<open>2 ^ 53 - n\<close>.
\<close>

lemma range_nextOrder:
  assumes "int (Suc n) \<le> 2 ^ 53" "list_all (\<lambda>m. \<bar>order m\<bar> + int (Suc n) \<le> 2 ^ 53) c"
  shows "\<bar>nextOrder c\<bar> + int n \<le> 2 ^ 53"
    and "c \<noteq> [] \<Longrightarrow> nextOrder c = order (last c) + 1"
proof -
  have l: "\<bar>order (last c)\<bar> + int (Suc n) \<le> 2 ^ 53" if "c \<noteq> []"
  proof -
    from that have "last c \<in> set c" by simp
    then show ?thesis
      using assms(2) by (simp add: list_all_iff)
  qed
  show e: "nextOrder c = order (last c) + 1" if "c \<noteq> []"
    using that l [OF that] by (intro nextOrder_exact) simp_all
  show "\<bar>nextOrder c\<bar> + int n \<le> 2 ^ 53"
  proof (cases "c = []")
    case True
    then show ?thesis
      using assms(1) by (simp add: nextOrder_def)
  next
    case False
    then show ?thesis
      using e [OF False] l [OF False] by simp
  qed
qed

lemma range_createOnEnter:
  assumes "v \<noteq> []" "int (Suc n) \<le> 2 ^ 53"
    "list_all (\<lambda>m. \<bar>order m\<bar> + int (Suc n) \<le> 2 ^ 53) (Todos s)"
  shows "list_all (\<lambda>m. \<bar>order m\<bar> + int n \<le> 2 ^ 53) (Todos (createOnEnter 13 v d s))"
proof -
  let ?m = "new_Todo [Title v, CreatedAt d, ModifiedAt d] s"
  have "\<bar>order ?m\<bar> + int n \<le> 2 ^ 53"
    using range_nextOrder(1) [OF assms(2,3)] by (simp add: new_Todo_createOnEnter)
  moreover have "\<bar>order x\<bar> + int n \<le> 2 ^ 53" if "x \<in> set (Todos s)" for x
  proof -
    have "\<bar>order x\<bar> + int (Suc n) \<le> 2 ^ 53"
      using assms(3) that by (simp add: list_all_iff)
    then show ?thesis by simp
  qed
  ultimately show ?thesis
    unfolding createOnEnter_Todos [OF assms(1)] by (auto simp: list_all_iff)
qed

lemma nextOrder_createOnEnter:
  assumes "v \<noteq> []" "int (Suc (Suc n)) \<le> 2 ^ 53"
    "list_all (\<lambda>m. \<bar>order m\<bar> + int (Suc (Suc n)) \<le> 2 ^ 53) (Todos s)"
  shows "nextOrder (Todos s) < nextOrder (Todos (createOnEnter 13 v d s))"
proof -
  let ?m = "new_Todo [Title v, CreatedAt d, ModifiedAt d] s"
  let ?xs = "Todos s @ [?m]"
  have T: "Todos (createOnEnter 13 v d s) = sort_key order ?xs"
    using assms(1) by (rule createOnEnter_Todos)
  have ne: "sort_key order ?xs \<noteq> []"
    by (metis length_sort snoc_eq_iff_butlast list.size(3) length_0_conv)
  have n1: "int (Suc n) \<le> 2 ^ 53"
    using assms(2) by simp
  have "list_all (\<lambda>m. \<bar>order m\<bar> + int (Suc n) \<le> 2 ^ 53) (Todos (createOnEnter 13 v d s))"
    using assms by (rule range_createOnEnter)
  then have "list_all (\<lambda>m. \<bar>order m\<bar> + int (Suc n) \<le> 2 ^ 53) (sort_key order ?xs)"
    unfolding T .
  then have "nextOrder (sort_key order ?xs) = order (last (sort_key order ?xs)) + 1"
    using range_nextOrder(2) [OF n1] ne by blast
  moreover have "order ?m \<le> order (last (sort_key order ?xs))"
    by (rule last_sort_key_ge) simp
  moreover have "order ?m = nextOrder (Todos s)"
    by (simp add: new_Todo_createOnEnter)
  ultimately show ?thesis
    unfolding T by simp
qed

lemma created_orders_lower:
  assumes "list_all (\<lambda>(v, d). v \<noteq> []) cs" "int (length cs) \<le> 2 ^ 53"
    "list_all (\<lambda>m. \<bar>order m\<bar> + int (length cs) \<le> 2 ^ 53) (Todos s)"
    "x \<in> set (created_orders cs s)"
  shows "nextOrder (Todos s) \<le> x"
  using assms
proof (induction cs arbitrary: s)
  case Nil
  then show ?case by simp
next
  case (Cons c cs)
  obtain v d where c: "c = (v, d)" by (cases c)
  with Cons.prems have v: "v \<noteq> []" and rest: "list_all (\<lambda>(v, d). v \<noteq> []) cs" by auto
  have n: "int (Suc (length cs)) \<le> 2 ^ 53"
    and r: "list_all (\<lambda>m. \<bar>order m\<bar> + int (Suc (length cs)) \<le> 2 ^ 53) (Todos s)"
    using Cons.prems(2,3) by simp_all
  from Cons.prems(4) c
  have "x = nextOrder (Todos s) \<or> x \<in> set (created_orders cs (createOnEnter 13 v d s))"
    by simp
  then show ?case
  proof
    assume "x = nextOrder (Todos s)" then show ?thesis by simp
  next
    assume x: "x \<in> set (created_orders cs (createOnEnter 13 v d s))"
    then obtain k where k: "length cs = Suc k"
      by (cases cs) auto
    have "int (length cs) \<le> 2 ^ 53"
      using n by simp
    then have "nextOrder (Todos (createOnEnter 13 v d s)) \<le> x"
      using Cons.IH [OF rest _ range_createOnEnter [OF v n r] x] by simp
    moreover have "nextOrder (Todos s) < nextOrder (Todos (createOnEnter 13 v d s))"
      using nextOrder_createOnEnter [OF v, of k s d] n r unfolding k by simp
    ultimately show ?thesis by simp
  qed
qed

section \<open>Models destroyed\<close>

lemma foldl_destroy_Todos:
  "Todos (foldl (\<lambda>s' m. destroy (cid m) s') s ms) =
     filter (\<lambda>m. cid m \<notin> cid ` set ms) (Todos s)"
proof (induction ms arbitrary: s)
  case Nil
  then show ?case by simp
next
  case (Cons a ms)
  have "Todos (foldl (\<lambda>s' m. destroy (cid m) s') (destroy (cid a) s) ms) =
          filter (\<lambda>m. cid m \<notin> cid ` set ms) (Todos (destroy (cid a) s))"
    by (rule Cons.IH)
  also have "Todos (destroy (cid a) s) = filter (\<lambda>m. cid m \<noteq> cid a) (Todos s)"
    by (simp add: destroy_def)
  also have "filter (\<lambda>m. cid m \<notin> cid ` set ms) (filter (\<lambda>m. cid m \<noteq> cid a) (Todos s)) =
          filter (\<lambda>m. cid m \<notin> cid ` set (a # ms)) (Todos s)"
    by (auto intro: filter_cong)
  finally show ?case by simp
qed

lemma foldl_destroy_idCounter:
  "idCounter (foldl (\<lambda>s' m. destroy (cid m) s') s ms) = idCounter s"
  by (induction ms arbitrary: s) (simp_all add: destroy_def)

lemma cid_of_done_item:
  assumes "distinct (map cid c)" "m \<in> set c"
  shows "cid m \<in> cid ` set (done_items c) \<longleftrightarrow> done m"
proof
  assume "cid m \<in> cid ` set (done_items c)"
  then obtain m' where m': "m' \<in> set c" "done m'" "cid m' = cid m"
    by (auto simp: done_items_def where_done_def)
  have "inj_on cid (set c)"
    using assms(1) by (simp add: distinct_map)
  then have "m' = m"
    using m'(1,3) assms(2) by (auto dest: inj_onD)
  then show "done m" using m'(2) by simp
next
  assume "done m"
  then show "cid m \<in> cid ` set (done_items c)"
    using assms(2) by (auto simp: done_items_def where_done_def)
qed

lemma clearCompleted_Todos:
  assumes "distinct (map cid (Todos s))"
  shows "Todos (clearCompleted s) = filter (\<lambda>m. \<not> done m) (Todos s)"
  unfolding clearCompleted_def foldl_destroy_Todos
  by (rule filter_cong) (simp_all add: cid_of_done_item [OF assms])

section \<open>The invariant holds in every session\<close>

lemma fetch_Nil: "fetch [] = initial"
  by (simp add: fetch_def initial_def)

lemma run_session: "run es = session [] es"
  by (simp add: run_def session_def fetch_Nil)

lemma distinct_cids_sort:
  "distinct (map cid (sort_key order xs)) = distinct (map cid xs)"
  by (simp add: distinct_map)

lemma invariant_fetch: "invariant (fetch stored)"
proof -
  let ?xs = "map (\<lambda>(k, a). \<lparr>title = title a, order = order a, done = done a,
                         createdAt = createdAt a, modifiedAt = modifiedAt a,
                         taskInfo = taskInfo a, cid = k\<rparr>) (enumerate 0 stored)"
  have "map cid ?xs = map fst (enumerate 0 stored)"
    by (simp add: case_prod_unfold comp_def)
  also have "\<dots> = [0..<length stored]"
    by (simp only: map_fst_enumerate add_0)
  finally have cs: "map cid ?xs = [0..<length stored]" .
  have "distinct (map cid ?xs)"
    unfolding cs by simp
  moreover have "list_all (\<lambda>m. cid m < length stored) ?xs"
  proof -
    have "list_all (\<lambda>k. k < length stored) (map cid ?xs)"
      unfolding cs by (simp add: list_all_iff)
    then show ?thesis
      by (simp add: list_all_iff)
  qed
  ultimately show ?thesis
    by (simp add: invariant_def fetch_def distinct_cids_sort list_all_iff)
qed

lemma invariant_same_cids_orders:
  assumes "invariant s" "map cid (Todos s') = map cid (Todos s)"
    "map order (Todos s') = map order (Todos s)" "idCounter s' = idCounter s"
  shows "invariant s'"
proof -
  have "list_all (\<lambda>m. cid m < idCounter s) (Todos s)"
    using assms(1) by (simp add: invariant_def)
  then have "list_all (\<lambda>k. k < idCounter s) (map cid (Todos s))"
    by (simp add: list_all_iff)
  then have "list_all (\<lambda>k. k < idCounter s') (map cid (Todos s'))"
    using assms(2,4) by simp
  then have "list_all (\<lambda>m. cid m < idCounter s') (Todos s')"
    by (simp add: list_all_iff)
  then show ?thesis
    using assms by (simp add: invariant_def)
qed

lemma invariant_filter:
  assumes "invariant s"
  shows "invariant (s\<lparr>Todos := filter P (Todos s)\<rparr>)"
  using assms by (simp add: invariant_def sorted_filter distinct_map_filter list_all_iff)

lemma invariant_destroy: "invariant s \<Longrightarrow> invariant (destroy k s)"
  unfolding destroy_def by (rule invariant_filter)

lemma invariant_on_model:
  assumes "invariant s" "\<And>m. cid (f m) = cid m" "\<And>m. order (f m) = order m"
  shows "invariant (on_model k f s)"
  using assms(1)
  by (rule invariant_same_cids_orders)
     (simp_all add: on_model_cids on_model_orders on_model_idCounter assms(2,3))

lemma invariant_toggleDone: "invariant s \<Longrightarrow> invariant (toggleDone k s)"
  unfolding toggleDone_def by (rule invariant_on_model) (simp_all add: toggle_eq)

lemma invariant_close: "invariant s \<Longrightarrow> invariant (close k v t d s)"
  unfolding close_def clear_def
  by (auto intro!: invariant_destroy invariant_on_model simp: save_close)

lemma invariant_toggleAllComplete: "invariant s \<Longrightarrow> invariant (toggleAllComplete b s)"
  unfolding toggleAllComplete_def
  by (erule invariant_same_cids_orders)
     (simp_all add: foldl_on_model_cids foldl_on_model_orders foldl_on_model_idCounter save_Done)

lemma invariant_clearCompleted:
  assumes "invariant s"
  shows "invariant (clearCompleted s)"
proof -
  have "clearCompleted s =
          s\<lparr>Todos := filter (\<lambda>m. cid m \<notin> cid ` set (done_items (Todos s))) (Todos s)\<rparr>"
    unfolding clearCompleted_def
    by (rule app.equality) (simp_all add: foldl_destroy_Todos foldl_destroy_idCounter)
  then show ?thesis
    using invariant_filter [OF assms] by simp
qed

lemma invariant_create:
  assumes "invariant s"
  shows "invariant (create [Title v, CreatedAt d, ModifiedAt d] s)"
proof -
  let ?m = "new_Todo [Title v, CreatedAt d, ModifiedAt d] s"
  have fresh: "\<forall>x\<in>set (Todos s). cid x < cid ?m"
    using assms by (simp add: invariant_def list_all_iff new_Todo_createOnEnter)
  have d: "distinct (map cid (Todos s @ [?m]))"
    using assms fresh by (auto simp: invariant_def)
  have c: "list_all (\<lambda>m. cid m < Suc (idCounter s)) (Todos s @ [?m])"
    using assms by (auto simp: invariant_def list_all_iff new_Todo_createOnEnter)
  have c': "list_all (\<lambda>m. cid m < Suc (idCounter s)) (sort_key order (Todos s @ [?m]))"
    using c by (simp add: list_all_iff)
  show ?thesis
    unfolding invariant_def create_def using d c' by (simp add: distinct_cids_sort)
qed

lemma invariant_createOnEnter: "invariant s \<Longrightarrow> invariant (createOnEnter c v d s)"
  by (simp add: createOnEnter_def invariant_create)

lemma invariant_handle: "invariant s \<Longrightarrow> invariant (handle s e)"
  by (cases e)
     (simp_all add: invariant_toggleDone invariant_close invariant_destroy clear_def
        invariant_createOnEnter invariant_clearCompleted invariant_toggleAllComplete
        updateOnEnter_def)

lemma invariant_foldl_handle: "invariant s \<Longrightarrow> invariant (foldl handle s es)"
  by (induction es arbitrary: s) (simp_all add: invariant_handle)

lemma invariant_session: "invariant (session stored es)"
  unfolding session_def by (rule invariant_foldl_handle) (rule invariant_fetch)

lemma session_distinct_cids: "distinct (map cid (Todos (session stored es)))"
  using invariant_session [of stored es] by (simp add: invariant_def)

lemma session_sorted: "sorted (map order (Todos (session stored es)))"
  using invariant_session [of stored es] by (simp add: invariant_def)

lemma run_distinct_cids: "distinct (map cid (Todos (run es)))"
  unfolding run_session by (rule session_distinct_cids)

lemma run_sorted: "sorted (map order (Todos (run es)))"
  unfolding run_session by (rule session_sorted)

section \<open>The example states, evaluated\<close>

lemmas eval_defs = js_def run_def initial_def createOnEnter_def create_def new_Todo_def defaults_def
  nextOrder_def plus_double_exact toggleDone_def toggle_def save_def on_model_def

lemma two_items_eq: "two_items = \<lparr>Todos =
    [\<lparr>title = js ''Buy milk'', order = 1, done = False, createdAt = Some (js ''d1''),
       modifiedAt = Some (js ''d1''), taskInfo = [], cid = 0\<rparr>,
     \<lparr>title = js ''Walk dog'', order = 2, done = False, createdAt = Some (js ''d2''),
       modifiedAt = Some (js ''d2''), taskInfo = [], cid = 1\<rparr>], idCounter = 2\<rparr>"
  by (simp add: two_items_def eval_defs)

lemma three_items_eq: "three_items = \<lparr>Todos =
    [\<lparr>title = js ''Buy milk'', order = 1, done = True, createdAt = Some (js ''d1''),
       modifiedAt = Some (js ''d1''), taskInfo = [], cid = 0\<rparr>,
     \<lparr>title = js ''Walk dog'', order = 2, done = False, createdAt = Some (js ''d2''),
       modifiedAt = Some (js ''d2''), taskInfo = [], cid = 1\<rparr>,
     \<lparr>title = js ''Pay rent'', order = 3, done = True, createdAt = Some (js ''d3''),
       modifiedAt = Some (js ''d3''), taskInfo = [], cid = 2\<rparr>], idCounter = 3\<rparr>"
  by (simp add: three_items_def eval_defs)

lemma two_items_session:
  "two_items = session [] [CreateOnEnter 13 (js ''Buy milk'') (js ''d1''),
                           CreateOnEnter 13 (js ''Walk dog'') (js ''d2'')]"
  by (simp add: two_items_def run_session)

lemma fetch_item_2_53: "fetch [item_2_53] = \<lparr>Todos =
    [\<lparr>title = js ''Buy milk'', order = 2 ^ 53, done = False, createdAt = Some (js ''d0''),
       modifiedAt = Some (js ''d0''), taskInfo = [], cid = 0\<rparr>], idCounter = 1\<rparr>"
  by (simp add: fetch_def item_2_53_def)

section \<open>What the sanitizer computes\<close>

text \<open>
  C1. For every input string the sanitizer returns what the specification describes:
  the string split on single spaces, without its empty tokens, every token longer than
  30 cut to its first 30 code units, rejoined with single spaces. It is a total function
  of its argument alone: it reads no state and has no error result.
\<close>

theorem sanitize_refines_spec: "sanitize x = sanitize_spec x"
  by (simp add: sanitize_pipeline sanitize_spec_def)

text \<open>
  C2. The sanitizer is idempotent: sanitizing a sanitized string changes nothing.
\<close>

theorem sanitize_idempotent: "sanitize (sanitize x) = sanitize x"
proof -
  let ?ts = "map truncate30 (filter (\<lambda>t. t \<noteq> []) (split SPACE x))"
  have "t \<noteq> [] \<and> SPACE \<notin> set t \<and> length t \<le> 30" if "t \<in> set ?ts" for t
  proof -
    from that obtain u where u: "u \<in> set (split SPACE x)" "u \<noteq> []" "t = truncate30 u"
      by auto
    have "SPACE \<notin> set u"
      using u(1) by (rule split_no_sep)
    then have "SPACE \<notin> set t"
      using truncate30_set [of u] u(3) by auto
    then show ?thesis
      using u by (simp add: truncate30_Nil_iff truncate30_length)
  qed
  then have "sanitize (join [SPACE] ?ts) = join [SPACE] ?ts"
    by (rule sanitize_of_tokens)
  then show ?thesis
    by (simp add: sanitize_pipeline)
qed

section \<open>Order numbers\<close>

text \<open>
  C3, as stated, does not hold once the order of the last item reaches \<open>2 ^ 53\<close>: the
  sum is a double, and \<open>2 ^ 53 + 1\<close> is none. On the collection fetched from a storage
  that holds one record of order \<open>2 ^ 53 = 9007199254740992\<close>, \<open>nextOrder\<close> returns
  the order of the last item itself.
\<close>

theorem nextOrder_2_53_counterexample:
  "order (last (Todos (fetch [item_2_53]))) = 9007199254740992 \<and>
   nextOrder (Todos (fetch [item_2_53])) = 9007199254740992"
  by (simp add: fetch_item_2_53 nextOrder_def double_eval)

text \<open>
  C3, amended. \<open>nextOrder\<close> returns 1 on the empty collection, and on a collection
  whose last item is \<open>m\<close> it returns the order of \<open>m\<close> plus 1 whenever that order is
  below \<open>2 ^ 53\<close> in magnitude, where the addition is exact.
\<close>

theorem nextOrder_value:
  "nextOrder [] = 1 \<and> (\<bar>order m\<bar> < 2 ^ 53 \<longrightarrow> nextOrder (c @ [m]) = order m + 1)"
  using nextOrder_exact [of "c @ [m]"] by (simp add: nextOrder_def)

text \<open>After the two items of the example, of orders 1 and 2, the next order is 3.\<close>

theorem nextOrder_value_witness:
  "\<bar>order (last (Todos two_items))\<bar> < 2 ^ 53 \<and>
   Todos two_items = butlast (Todos two_items) @ [last (Todos two_items)] \<and>
   nextOrder (Todos two_items) = 3"
proof -
  have h: "\<bar>order (last (Todos two_items))\<bar> < 2 ^ 53"
    by (simp add: two_items_eq)
  have c: "Todos two_items = butlast (Todos two_items) @ [last (Todos two_items)]"
    by (simp add: two_items_eq)
  have "nextOrder (butlast (Todos two_items) @ [last (Todos two_items)]) =
          order (last (Todos two_items)) + 1"
    using nextOrder_value [of "last (Todos two_items)" "butlast (Todos two_items)"] h by blast
  then have "nextOrder (Todos two_items) = order (last (Todos two_items)) + 1"
    using c by simp
  then have "nextOrder (Todos two_items) = 3"
    by (simp add: two_items_eq)
  then show ?thesis
    using h c by blast
qed

text \<open>
  C4, as stated, does not hold from a collection whose last order is \<open>2 ^ 53\<close>: two
  creations in a row are both given the order \<open>2 ^ 53\<close>, since the first new item,
  sorted behind the fetched one, is the last item when the second is created.
\<close>

theorem created_orders_2_53_counterexample:
  "created_orders [(js ''Walk dog'', js ''d1''), (js ''Pay rent'', js ''d2'')]
     (fetch [item_2_53]) = [9007199254740992, 9007199254740992]"
  by (simp add: fetch_item_2_53 js_def createOnEnter_def create_def new_Todo_def defaults_def
      nextOrder_def double_eval)

text \<open>
  C4, amended. Along any sequence of \<open>n\<close> creations (the Enter key in the input box
  with a non-empty text, and nothing else in between), where \<open>n\<close> is at most \<open>2 ^ 53\<close>
  and every order of the starting collection is at most \<open>2 ^ 53 - n\<close> in magnitude,
  the values that \<open>nextOrder\<close> returns are strictly increasing, so none is returned
  twice. Within these bounds every addition of 1 is exact.
\<close>

theorem created_orders_strictly_increasing:
  assumes "list_all (\<lambda>(v, d). v \<noteq> []) cs"
    and "int (length cs) \<le> 2 ^ 53"
    and "list_all (\<lambda>m. \<bar>order m\<bar> + int (length cs) \<le> 2 ^ 53) (Todos s)"
  shows "sorted_wrt (<) (created_orders cs s) \<and> distinct (created_orders cs s)"
proof -
  have "sorted_wrt (<) (created_orders cs s)"
    using assms
  proof (induction cs arbitrary: s)
    case Nil
    then show ?case by simp
  next
    case (Cons c cs)
    obtain v d where c: "c = (v, d)" by (cases c)
    with Cons.prems have v: "v \<noteq> []" and rest: "list_all (\<lambda>(v, d). v \<noteq> []) cs" by auto
    have n: "int (Suc (length cs)) \<le> 2 ^ 53"
      and r: "list_all (\<lambda>m. \<bar>order m\<bar> + int (Suc (length cs)) \<le> 2 ^ 53) (Todos s)"
      using Cons.prems(2,3) by simp_all
    have n': "int (length cs) \<le> 2 ^ 53"
      using n by simp
    have r': "list_all (\<lambda>m. \<bar>order m\<bar> + int (length cs) \<le> 2 ^ 53)
                (Todos (createOnEnter 13 v d s))"
      using v n r by (rule range_createOnEnter)
    have "nextOrder (Todos s) < x" if x: "x \<in> set (created_orders cs (createOnEnter 13 v d s))" for x
    proof -
      from x obtain k where k: "length cs = Suc k"
        by (cases cs) auto
      have "nextOrder (Todos s) < nextOrder (Todos (createOnEnter 13 v d s))"
        using nextOrder_createOnEnter [OF v, of k s d] n r unfolding k by simp
      then show ?thesis
        using created_orders_lower [OF rest n' r' x] by simp
    qed
    then show ?case
      using Cons.IH [OF rest n' r'] c by simp
  qed
  then show ?thesis
    by (simp add: strict_sorted_iff)
qed

text \<open>
  Two more creations after the two items of the example are given the orders 3 and 4.
\<close>

theorem created_orders_witness:
  "list_all (\<lambda>(v, d). v \<noteq> []) [(js ''Pay rent'', js ''d3''), (js ''Call home'', js ''d4'')] \<and>
   int (length [(js ''Pay rent'', js ''d3''), (js ''Call home'', js ''d4'')]) \<le> 2 ^ 53 \<and>
   list_all (\<lambda>m. \<bar>order m\<bar> +
                  int (length [(js ''Pay rent'', js ''d3''), (js ''Call home'', js ''d4'')])
                  \<le> 2 ^ 53) (Todos two_items) \<and>
   sorted_wrt (<)
     (created_orders [(js ''Pay rent'', js ''d3''), (js ''Call home'', js ''d4'')] two_items) \<and>
   distinct
     (created_orders [(js ''Pay rent'', js ''d3''), (js ''Call home'', js ''d4'')] two_items) \<and>
   created_orders [(js ''Pay rent'', js ''d3''), (js ''Call home'', js ''d4'')] two_items = [3, 4]"
proof -
  let ?cs = "[(js ''Pay rent'', js ''d3''), (js ''Call home'', js ''d4'')]"
  have h1: "list_all (\<lambda>(v, d). v \<noteq> []) ?cs"
    by (simp add: js_def)
  have h2: "int (length ?cs) \<le> 2 ^ 53"
    by simp
  have h3: "list_all (\<lambda>m. \<bar>order m\<bar> + int (length ?cs) \<le> 2 ^ 53) (Todos two_items)"
    by (simp add: two_items_eq)
  have "created_orders ?cs two_items = [3, 4]"
    by (simp add: two_items_eq js_def createOnEnter_def create_def new_Todo_def defaults_def
        nextOrder_def plus_double_exact)
  then show ?thesis
    using h1 h2 h3 created_orders_strictly_increasing [OF h1 h2 h3] by simp
qed

section \<open>Done and remaining\<close>

text \<open>
  C5. In every collection the number of done items plus the number of remaining items
  is the number of items: \<open>done\<close> and \<open>remaining\<close> are the items whose flag is set and
  the items whose flag is not set, each in collection order, with no item in both and
  every item in one of them.
\<close>

theorem done_remaining_partition:
  "length (done_items c) + length (remaining c) = length c \<and>
   done_items c = filter (\<lambda>m. done m) c \<and>
   remaining c = filter (\<lambda>m. \<not> done m) c \<and>
   set (done_items c) \<inter> set (remaining c) = {} \<and>
   set (done_items c) \<union> set (remaining c) = set c"
proof -
  have d: "done_items c = filter (\<lambda>m. done m) c"
    by (simp add: done_items_def where_done_def)
  have r: "remaining c = filter (\<lambda>m. \<not> done m) c"
    by (simp add: remaining_def where_done_def)
  have "length (filter (\<lambda>m. done m) c) + length (filter (\<lambda>m. \<not> done m) c) = length c"
    by (rule sum_length_filter_compl)
  moreover have "set (filter (\<lambda>m. done m) c) \<inter> set (filter (\<lambda>m. \<not> done m) c) = {}"
    by auto
  moreover have "set (filter (\<lambda>m. done m) c) \<union> set (filter (\<lambda>m. \<not> done m) c) = set c"
    by auto
  ultimately show ?thesis
    unfolding d r by simp
qed

section \<open>Committing an edit\<close>

text \<open>
  C6. \<open>close\<close> with an empty title takes the view's item out of the collection and
  leaves the other items as they are; no error value exists for it to return. With a
  non-empty title the item stays where it is, with the new title, the sanitized notes
  and the date of the change; the other items and every other attribute are unchanged.
\<close>

theorem close_commit:
  "Todos (close k [] t d s) = filter (\<lambda>m. cid m \<noteq> k) (Todos s) \<and>
   k \<notin> cid ` set (Todos (close k [] t d s)) \<and>
   (v \<noteq> [] \<longrightarrow>
      Todos (close k v t d s) =
        map (\<lambda>m. if cid m = k
                  then m\<lparr>title := v, modifiedAt := Some d, taskInfo := sanitize t\<rparr>
                  else m) (Todos s) \<and>
      map cid (Todos (close k v t d s)) = map cid (Todos s))"
proof -
  have 1: "Todos (close k [] t d s) = filter (\<lambda>m. cid m \<noteq> k) (Todos s)"
    by (simp add: close_def clear_def destroy_def)
  have 2: "k \<notin> cid ` set (Todos (close k [] t d s))"
    unfolding 1 by auto
  have 3: "Todos (close k v t d s) =
        map (\<lambda>m. if cid m = k
                  then m\<lparr>title := v, modifiedAt := Some d, taskInfo := sanitize t\<rparr>
                  else m) (Todos s)" if "v \<noteq> []"
    using that by (simp add: close_def on_model_def save_close)
  have 4: "map cid (Todos (close k v t d s)) = map cid (Todos s)" if "v \<noteq> []"
    unfolding 3 [OF that] by simp
  show ?thesis
    using 1 2 3 4 by blast
qed

text \<open>
  On the collection of two items: committing an empty title on the first leaves the
  second alone; committing the title \<open>Milk\<close> with the notes \<open>" two  litres "\<close> keeps
  both items and stores the notes as \<open>"two litres"\<close>.
\<close>

theorem close_commit_witness:
  "js ''Milk'' \<noteq> [] \<and>
   Todos (close 0 [] (js ''x'') (js ''d3'') two_items) =
     [\<lparr>title = js ''Walk dog'', order = 2, done = False, createdAt = Some (js ''d2''),
       modifiedAt = Some (js ''d2''), taskInfo = [], cid = 1\<rparr>] \<and>
   Todos (close 0 (js ''Milk'') (js '' two  litres '') (js ''d3'') two_items) =
     [\<lparr>title = js ''Milk'', order = 1, done = False, createdAt = Some (js ''d1''),
       modifiedAt = Some (js ''d3''), taskInfo = js ''two litres'', cid = 0\<rparr>,
      \<lparr>title = js ''Walk dog'', order = 2, done = False, createdAt = Some (js ''d2''),
       modifiedAt = Some (js ''d2''), taskInfo = [], cid = 1\<rparr>]"
proof -
  have h: "js ''Milk'' \<noteq> []"
    by (simp add: js_def)
  have s: "sanitize (js '' two  litres '') = js ''two litres''"
    by (simp add: sanitize_def sanitize_push_def SPACE_def js_def)
  show ?thesis
    using h close_commit [of 0 "js ''x''" "js ''d3''" two_items "js ''Milk''"]
      close_commit [of 0 "js '' two  litres ''" "js ''d3''" two_items "js ''Milk''"]
    by (simp add: two_items_eq s)
qed

section \<open>Clearing the completed items\<close>

text \<open>
  C7. After \<open>clearCompleted\<close> the collection holds exactly the items whose done flag
  is false, in their order; from two done items and one remaining item, the one
  remaining item is what is left. The client ids of a collection are distinct (each
  model object has its own; \<open>run_distinct_cids\<close> shows it for every run).
\<close>

theorem clearCompleted_keeps_remaining:
  assumes "distinct (map cid (Todos s))"
  shows "Todos (clearCompleted s) = filter (\<lambda>m. \<not> done m) (Todos s) \<and>
         (length (done_items (Todos s)) = 2 \<and> length (remaining (Todos s)) = 1 \<longrightarrow>
            length (Todos (clearCompleted s)) = 1 \<and>
            Todos (clearCompleted s) = remaining (Todos s))"
proof -
  have "Todos (clearCompleted s) = filter (\<lambda>m. \<not> done m) (Todos s)"
    using assms by (rule clearCompleted_Todos)
  moreover have "remaining (Todos s) = filter (\<lambda>m. \<not> done m) (Todos s)"
    by (simp add: remaining_def where_done_def)
  ultimately show ?thesis by simp
qed

text \<open>
  Three items of which the first and the third are done: clearing leaves the second.
\<close>

theorem clearCompleted_witness:
  "distinct (map cid (Todos three_items)) \<and>
   length (done_items (Todos three_items)) = 2 \<and>
   length (remaining (Todos three_items)) = 1 \<and>
   Todos (clearCompleted three_items) =
     [\<lparr>title = js ''Walk dog'', order = 2, done = False, createdAt = Some (js ''d2''),
       modifiedAt = Some (js ''d2''), taskInfo = [], cid = 1\<rparr>]"
proof -
  have h: "distinct (map cid (Todos three_items))"
    by (simp add: three_items_eq)
  have "length (done_items (Todos three_items)) = 2"
    by (simp add: three_items_eq done_items_def where_done_def)
  moreover have "length (remaining (Todos three_items)) = 1"
    by (simp add: three_items_eq remaining_def where_done_def)
  moreover have "filter (\<lambda>m. \<not> done m) (Todos three_items) =
     [\<lparr>title = js ''Walk dog'', order = 2, done = False, createdAt = Some (js ''d2''),
       modifiedAt = Some (js ''d2''), taskInfo = [], cid = 1\<rparr>]"
    by (simp add: three_items_eq)
  ultimately show ?thesis
    using h clearCompleted_keeps_remaining [OF h] by simp
qed

section \<open>A newly created item\<close>

text \<open>
  C8, as stated, does not hold once the greatest order in the collection is \<open>2 ^ 53\<close>:
  the order that the defaults give a new item is \<open>2 ^ 53\<close> again, not the maximum plus
  1, and the item created on Enter is stored with that order.
\<close>

theorem new_item_2_53_counterexample:
  "Max (order ` set (Todos (fetch [item_2_53]))) = 9007199254740992 \<and>
   order (defaults (Todos (fetch [item_2_53]))) = 9007199254740992 \<and>
   map order (Todos (createOnEnter 13 (js ''Walk dog'') (js ''d1'') (fetch [item_2_53]))) =
     [9007199254740992, 9007199254740992]"
  by (simp add: fetch_item_2_53 js_def createOnEnter_def create_def new_Todo_def defaults_def
      nextOrder_def double_eval)

text \<open>
  C8, amended. In every state \<open>s\<close> of a session in which the orders are below \<open>2 ^ 53\<close>
  in magnitude, a newly created item has the default title \<open>empty todo...\<close>, done equal
  to false, and order equal to the greatest order in the collection plus 1, or 1 when
  the collection is empty; the item that the Enter key appends to the collection has
  that done flag and that order.
\<close>

theorem new_item_defaults:
  assumes "s = session stored es"
    and "list_all (\<lambda>m. \<bar>order m\<bar> < 2 ^ 53) (Todos s)"
  shows "title (defaults (Todos s)) = js ''empty todo...'' \<and>
         done (defaults (Todos s)) = False \<and>
         order (defaults (Todos s)) =
           (if Todos s = [] then 1 else Max (order ` set (Todos s)) + 1) \<and>
         (v \<noteq> [] \<longrightarrow>
            (\<exists>m. Todos (createOnEnter 13 v d s) = Todos s @ [m] \<and> done m = False \<and>
                 order m = (if Todos s = [] then 1 else Max (order ` set (Todos s)) + 1)))"
proof -
  have srt: "sorted (map order (Todos s))"
    unfolding assms(1) by (rule session_sorted)
  have n: "nextOrder (Todos s) =
      (if Todos s = [] then 1 else Max (order ` set (Todos s)) + 1)"
    using nextOrder_Max [OF srt _ assms(2)] by (simp add: nextOrder_def)
  have "Todos (createOnEnter 13 v d s) =
          Todos s @ [new_Todo [Title v, CreatedAt d, ModifiedAt d] s]" if "v \<noteq> []"
    using that srt assms(2) by (simp add: createOnEnter_def create_appends)
  then have "\<exists>m. Todos (createOnEnter 13 v d s) = Todos s @ [m] \<and> done m = False \<and>
                 order m = nextOrder (Todos s)" if "v \<noteq> []"
    using that by (simp add: new_Todo_createOnEnter)
  then show ?thesis
    unfolding n [symmetric] by (simp add: defaults_def)
qed

text \<open>
  After the two items of the example the defaults give order 3, and a third item
  created on Enter is stored behind them with order 3.
\<close>

theorem new_item_defaults_witness:
  "two_items = session [] [CreateOnEnter 13 (js ''Buy milk'') (js ''d1''),
                           CreateOnEnter 13 (js ''Walk dog'') (js ''d2'')] \<and>
   list_all (\<lambda>m. \<bar>order m\<bar> < 2 ^ 53) (Todos two_items) \<and>
   js ''Pay rent'' \<noteq> [] \<and>
   title (defaults (Todos two_items)) = js ''empty todo...'' \<and>
   done (defaults (Todos two_items)) = False \<and>
   order (defaults (Todos two_items)) = 3 \<and>
   map done (Todos (createOnEnter 13 (js ''Pay rent'') (js ''d3'') two_items)) =
     [False, False, False] \<and>
   map order (Todos (createOnEnter 13 (js ''Pay rent'') (js ''d3'') two_items)) = [1, 2, 3]"
proof -
  have h1: "two_items = session [] [CreateOnEnter 13 (js ''Buy milk'') (js ''d1''),
                                    CreateOnEnter 13 (js ''Walk dog'') (js ''d2'')]"
    by (rule two_items_session)
  have h2: "list_all (\<lambda>m. \<bar>order m\<bar> < 2 ^ 53) (Todos two_items)"
    by (simp add: two_items_eq)
  have h3: "js ''Pay rent'' \<noteq> []"
    by (simp add: js_def)
  have m: "Max (order ` set (Todos two_items)) = 2" "Todos two_items \<noteq> []"
    by (simp_all add: two_items_eq)
  obtain x where x: "Todos (createOnEnter 13 (js ''Pay rent'') (js ''d3'') two_items) =
      Todos two_items @ [x]" "done x = False" "order x = 3"
    using new_item_defaults [OF h1 h2, of "js ''Pay rent''" "js ''d3''"] h3 m by auto
  have "order (defaults (Todos two_items)) = 3"
    using new_item_defaults [OF h1 h2, of "js ''Pay rent''" "js ''d3''"] m by simp
  moreover have "title (defaults (Todos two_items)) = js ''empty todo...''"
    "done (defaults (Todos two_items)) = False"
    using new_item_defaults [OF h1 h2, of "js ''Pay rent''" "js ''d3''"] by simp_all
  moreover have "map done (Todos two_items) = [False, False]"
    "map order (Todos two_items) = [1, 2]"
    by (simp_all add: two_items_eq)
  ultimately show ?thesis
    using h1 h2 h3 x by simp
qed

section \<open>Keystrokes in an editing field\<close>

text \<open>
  C9, as stated, does not hold of the Enter key: key code 13 is no letter, digit or
  space, yet the handler does not return false on it. It calls \<open>close\<close> and returns
  nothing; with an empty input field that removes the item.
\<close>

theorem updateOnEnter_Enter_counterexample:
  "(13::int) \<notin> {65..90} \<union> {97..122} \<union> {48..57} \<union> {32} \<and>
   updateOnEnter 0 13 [] [] (js ''d3'') two_items =
     (\<lparr>Todos =
         [\<lparr>title = js ''Walk dog'', order = 2, done = False, createdAt = Some (js ''d2''),
           modifiedAt = Some (js ''d2''), taskInfo = [], cid = 1\<rparr>],
       idCounter = 2\<rparr>, None)"
  by (simp add: updateOnEnter_def close_def clear_def destroy_def two_items_eq)

text \<open>
  C9, amended. On Enter (key code 13) the handler commits the edit through \<open>close\<close>
  and returns nothing. On every other key code it leaves the state alone and returns
  true when the code is a letter (65 to 90, 97 to 122), a digit (48 to 57) or the space
  (32), and false otherwise.
\<close>

theorem updateOnEnter_keys:
  "updateOnEnter k 13 v t d s = (close k v t d s, None) \<and>
   (keyCode \<noteq> 13 \<longrightarrow>
      updateOnEnter k keyCode v t d s =
        (s, Some ((65 \<le> keyCode \<and> keyCode \<le> 90) \<or> (97 \<le> keyCode \<and> keyCode \<le> 122) \<or>
                  (48 \<le> keyCode \<and> keyCode \<le> 57) \<or> keyCode = 32)))"
  by (auto simp: updateOnEnter_def)

text \<open>Key code 35 is refused and key code 97 accepted, the state unchanged each time.\<close>

theorem updateOnEnter_keys_witness:
  "(35::int) \<noteq> 13 \<and> (97::int) \<noteq> 13 \<and>
   updateOnEnter 0 35 (js ''Milk'') [] (js ''d3'') two_items = (two_items, Some False) \<and>
   updateOnEnter 0 97 (js ''Milk'') [] (js ''d3'') two_items = (two_items, Some True)"
  using updateOnEnter_keys [of 0 "js ''Milk''" "[]" "js ''d3''" two_items 35]
    updateOnEnter_keys [of 0 "js ''Milk''" "[]" "js ''d3''" two_items 97]
  by simp

section \<open>Toggling an item\<close>

text \<open>
  C10. \<open>toggle\<close> negates the done attribute of an item and changes nothing else:
  title, order, creation date, modification date and notes are as before, and so is
  the client id. In the collection, the view's item is toggled and the others are
  untouched.
\<close>

theorem toggle_changes_done_only:
  "done (toggle m) = (\<not> done m) \<and> title (toggle m) = title m \<and> order (toggle m) = order m \<and>
   createdAt (toggle m) = createdAt m \<and> modifiedAt (toggle m) = modifiedAt m \<and>
   taskInfo (toggle m) = taskInfo m \<and> cid (toggle m) = cid m \<and>
   Todos (toggleDone k s) =
     map (\<lambda>m. if cid m = k then m\<lparr>done := \<not> done m\<rparr> else m) (Todos s)"
  by (simp add: toggle_eq toggleDone_def on_model_def)

end
